theory Spec2Isabelle
  imports Complex_Main
begin

section \<open>Differential drive simulator: the embedding of simulator.py\<close>

text \<open>
  The model follows \<^verbatim>\<open>main\<close> of \<^verbatim>\<open>simulator.py\<close>. The local variables of
  \<^verbatim>\<open>main\<close> form the record \<open>sim_state\<close>; one iteration of the \<^verbatim>\<open>while running\<close>
  loop is the function \<open>tick\<close>, which takes the events and the held keys that pygame hands
  to that iteration. Python floats are idealised as reals, Python ints are \<open>int\<close>. The
  two places that can raise are branches of the model: a float division by zero
  (\<^verbatim>\<open>ZeroDivisionError\<close>) and the list lookup \<^verbatim>\<open>frames[frame_index]\<close>
  (\<^verbatim>\<open>IndexError\<close>). Drawing is not modelled beyond that lookup and the wheel positions
  it computes.
\<close>

subsection \<open>Configuration constants\<close>

definition WIDTH :: int where "WIDTH = 1600"
definition HEIGHT :: int where "HEIGHT = 1200"
definition SCROLL_BUFFER :: int where "SCROLL_BUFFER = 100"
definition PAN_SPEED :: real where "PAN_SPEED = 5"
definition ZOOM_STEP :: real where "ZOOM_STEP = 0.05"
definition ZOOM_MIN :: real where "ZOOM_MIN = 1"
definition ZOOM_MAX :: real where "ZOOM_MAX = 20"

subsection \<open>Data classes\<close>

record RobotParameters =
  wheel_diameter :: real
  robot_width :: real
  scale :: real
  step_size :: real
  axle_offset :: real

definition half_robot_width :: "RobotParameters \<Rightarrow> real" where
  "half_robot_width params = robot_width params / 2"

definition wheel_circumference :: "RobotParameters \<Rightarrow> real" where
  "wheel_circumference params = pi * wheel_diameter params"

record InitialConditions =
  init_x :: real
  init_y :: real
  init_heading :: real

record DisplayOptions =
  show_origin :: bool
  show_initial_position :: bool
  show_path :: bool
  show_turns :: bool
  show_heading :: bool
  show_axle :: bool
  show_grid :: bool

text \<open>A movement is the tuple \<^verbatim>\<open>(direction, wheel_cmd, rotations)\<close>.\<close>

type_synonym movement = "string \<times> string \<times> real"

datatype py_error = ZeroDivisionError | IndexError

text \<open>Python's true division of floats raises on a zero divisor.\<close>

definition truediv :: "real \<Rightarrow> real \<Rightarrow> py_error + real" where
  "truediv a b = (if b = 0 then Inl ZeroDivisionError else Inr (a / b))"

subsection \<open>Frames and the state of the main loop\<close>

text \<open>A frame is the dictionary built by \<^verbatim>\<open>record_frame\<close>; the field \<open>f_k\<close> is its key \<open>k\<close>.\<close>

record frame =
  f_x :: real
  f_y :: real
  f_heading :: real
  f_axle_x :: real
  f_axle_y :: real
  f_movement_index :: int
  f_remaining_distance :: real
  f_active_wheel_command :: "string option"
  f_direction_sign :: int
  f_instruction_markers :: "(real \<times> real) list"

text \<open>
  The local variables of \<^verbatim>\<open>main\<close>. The reference point \<^verbatim>\<open>x, y\<close> is \<open>pos_x, pos_y\<close>;
  \<^verbatim>\<open>None\<close> is \<open>None\<close>.
\<close>

record sim_state =
  scroll_x :: real
  scroll_y :: real
  zoom :: real
  instruction_markers :: "(real \<times> real) list"
  frames :: "frame list"
  pos_x :: real
  pos_y :: real
  heading :: real
  axle_x :: real
  axle_y :: real
  movement_index :: int
  remaining_distance :: real
  active_wheel_command :: "string option"
  direction_sign :: int
  previous_wheel :: "string option"
  paused :: bool
  frame_index :: int
  sim_frame_index :: int
  simulation_finished :: bool
  scrubbing :: bool
  scrubbing_direction :: int
  sim_frame_index_before_scrub :: int
  path :: "(real \<times> real) list"
  running :: bool

definition snapshot :: "sim_state \<Rightarrow> frame" where
  "snapshot s =
     \<lparr>f_x = pos_x s, f_y = pos_y s, f_heading = heading s,
      f_axle_x = axle_x s, f_axle_y = axle_y s,
      f_movement_index = movement_index s,
      f_remaining_distance = remaining_distance s,
      f_active_wheel_command = active_wheel_command s,
      f_direction_sign = direction_sign s,
      f_instruction_markers = instruction_markers s\<rparr>"

definition record_frame :: "sim_state \<Rightarrow> sim_state" where
  "record_frame s = s\<lparr>frames := frames s @ [snapshot s]\<rparr>"

text \<open>The state on entry to the \<^verbatim>\<open>while\<close> loop (lines 75 to 155).\<close>

definition initial_state :: "RobotParameters \<Rightarrow> InitialConditions \<Rightarrow> sim_state" where
  "initial_state params init = record_frame
     \<lparr>scroll_x = init_x init, scroll_y = init_y init, zoom = scale params,
      instruction_markers = [], frames = [],
      pos_x = init_x init, pos_y = init_y init, heading = init_heading init,
      axle_x = init_x init - axle_offset params * sin (init_heading init),
      axle_y = init_y init - axle_offset params * cos (init_heading init),
      movement_index = 0, remaining_distance = 0, active_wheel_command = None,
      direction_sign = 1, previous_wheel = None,
      paused = False, frame_index = 0, sim_frame_index = 0,
      simulation_finished = False,
      scrubbing = False, scrubbing_direction = 0, sim_frame_index_before_scrub = 0,
      path = [(init_x init, init_y init)], running = True\<rparr>"

subsection \<open>Input\<close>

datatype key = K_SPACE | K_ESCAPE | K_0 | K_LEFTBRACKET | K_RIGHTBRACKET
  | K_LEFT | K_RIGHT | K_UP | K_DOWN | K_EQUALS | K_PLUS | K_MINUS | K_UNDERSCORE
  | K_OTHER

datatype event = QUIT | KEYDOWN key | KEYUP key | OTHER_EVENT

text \<open>What one iteration reads: \<^verbatim>\<open>pygame.event.get()\<close> and \<^verbatim>\<open>pygame.key.get_pressed()\<close>.\<close>

record tick_input =
  events :: "event list"
  keys :: "key set"

subsection \<open>Event handling (lines 160 to 211)\<close>

text \<open>The reset-view key fits the camera to the bounding box of the recorded frames.\<close>

definition reset_view :: "sim_state \<Rightarrow> sim_state" where
  "reset_view s = (case frames s of
       [] \<Rightarrow> s
     | f # fs \<Rightarrow>
        (let min_x = foldl min (f_x f) (map f_x fs);
             max_x = foldl max (f_x f) (map f_x fs);
             min_y = foldl min (f_y f) (map f_y fs);
             max_y = foldl max (f_y f) (map f_y fs);
             width = max_x - min_x;
             height = max_y - min_y;
             padding = max width height * 0.1;
             width = width + padding;
             height = height + padding;
             zoom_x = (if width \<noteq> 0 then real_of_int WIDTH / width else ZOOM_MAX);
             zoom_y = (if height \<noteq> 0 then real_of_int HEIGHT / height else ZOOM_MAX);
             z = min (min zoom_x zoom_y) ZOOM_MAX;
             z = max z ZOOM_MIN
         in s\<lparr>zoom := z, scroll_x := (min_x + max_x) / 2, scroll_y := (min_y + max_y) / 2\<rparr>))"

fun handle_event :: "sim_state \<Rightarrow> event \<Rightarrow> sim_state" where
  "handle_event s QUIT = s\<lparr>running := False\<rparr>"
| "handle_event s (KEYDOWN K_SPACE) =
     (if \<not> paused s
      then s\<lparr>paused := True, sim_frame_index_before_scrub := sim_frame_index s\<rparr>
      else s\<lparr>paused := False,
             sim_frame_index := sim_frame_index_before_scrub s,
             frame_index := sim_frame_index_before_scrub s,
             scrubbing := False, scrubbing_direction := 0\<rparr>)"
| "handle_event s (KEYDOWN K_ESCAPE) = s\<lparr>running := False\<rparr>"
| "handle_event s (KEYDOWN K_0) = reset_view s"
| "handle_event s (KEYDOWN K_LEFTBRACKET) =
     (if paused s \<or> simulation_finished s
      then s\<lparr>scrubbing := True, scrubbing_direction := - 1,
             sim_frame_index_before_scrub := sim_frame_index s\<rparr>
      else s)"
| "handle_event s (KEYDOWN K_RIGHTBRACKET) =
     (if paused s \<or> simulation_finished s
      then s\<lparr>scrubbing := True, scrubbing_direction := 1,
             sim_frame_index_before_scrub := sim_frame_index s\<rparr>
      else s)"
| "handle_event s (KEYDOWN _) = s"
| "handle_event s (KEYUP k) =
     (if k = K_LEFTBRACKET \<or> k = K_RIGHTBRACKET
      then s\<lparr>scrubbing := False, scrubbing_direction := 0\<rparr>
      else s)"
| "handle_event s OTHER_EVENT = s"

definition handle_events :: "event list \<Rightarrow> sim_state \<Rightarrow> sim_state" where
  "handle_events es s = foldl handle_event s es"

subsection \<open>Errors as values\<close>

definition and_then :: "py_error + 'a \<Rightarrow> ('a \<Rightarrow> py_error + 'b) \<Rightarrow> py_error + 'b" where
  "and_then r f = (case r of Inl e \<Rightarrow> Inl e | Inr v \<Rightarrow> f v)"

text \<open>Python's list indexing: a negative index counts from the end, out of range raises.\<close>

definition getitem :: "'a list \<Rightarrow> int \<Rightarrow> py_error + 'a" where
  "getitem xs i =
     (if 0 \<le> i \<and> i < int (length xs) then Inr (xs ! nat i)
      else if - int (length xs) \<le> i \<and> i < 0 then Inr (xs ! nat (int (length xs) + i))
      else Inl IndexError)"

subsection \<open>Camera keys (lines 213 to 227)\<close>

definition pan_step ::
  "bool \<Rightarrow> (sim_state \<Rightarrow> real \<Rightarrow> sim_state) \<Rightarrow> sim_state \<Rightarrow> py_error + sim_state" where
  "pan_step pressed upd s =
     (if pressed then and_then (truediv PAN_SPEED (zoom s)) (\<lambda>d. Inr (upd s d)) else Inr s)"

definition zoom_keys :: "key set \<Rightarrow> sim_state \<Rightarrow> sim_state" where
  "zoom_keys ks s =
     (let s = (if K_EQUALS \<in> ks \<or> K_PLUS \<in> ks
               then s\<lparr>zoom := min (zoom s + ZOOM_STEP) ZOOM_MAX\<rparr> else s);
          s = (if K_MINUS \<in> ks \<or> K_UNDERSCORE \<in> ks
               then s\<lparr>zoom := max (zoom s - ZOOM_STEP) ZOOM_MIN\<rparr> else s)
      in s)"

definition pan_zoom :: "key set \<Rightarrow> sim_state \<Rightarrow> py_error + sim_state" where
  "pan_zoom ks s =
     and_then (pan_step (K_LEFT \<in> ks) (\<lambda>s d. s\<lparr>scroll_x := scroll_x s - d\<rparr>) s) (\<lambda>s.
     and_then (pan_step (K_RIGHT \<in> ks) (\<lambda>s d. s\<lparr>scroll_x := scroll_x s + d\<rparr>) s) (\<lambda>s.
     and_then (pan_step (K_UP \<in> ks) (\<lambda>s d. s\<lparr>scroll_y := scroll_y s + d\<rparr>) s) (\<lambda>s.
     and_then (pan_step (K_DOWN \<in> ks) (\<lambda>s d. s\<lparr>scroll_y := scroll_y s - d\<rparr>) s) (\<lambda>s.
     Inr (zoom_keys ks s)))))"

subsection \<open>Scrubbing (lines 229 to 234)\<close>

definition handle_scrubbing :: "sim_state \<Rightarrow> sim_state" where
  "handle_scrubbing s =
     (if scrubbing s \<and> (paused s \<or> simulation_finished s)
      then (let scrub_speed = 1;
                new_frame_index = frame_index s + scrubbing_direction s * scrub_speed;
                new_frame_index = max 0 (min (int (length (frames s)) - 1) new_frame_index)
            in s\<lparr>frame_index := new_frame_index\<rparr>)
      else s)"

subsection \<open>The command queue (lines 238 to 248)\<close>

definition activate ::
  "RobotParameters \<Rightarrow> movement list \<Rightarrow> DisplayOptions \<Rightarrow> sim_state \<Rightarrow> py_error + sim_state" where
  "activate params movements display s =
     (if remaining_distance s \<le> 0 \<and> movement_index s < int (length movements)
      then and_then (getitem movements (movement_index s)) (\<lambda>(direction, wheel_cmd, rotations).
        (let s = s\<lparr>direction_sign := (if direction = ''forward'' then 1 else - 1),
                    remaining_distance := rotations * wheel_circumference params,
                    active_wheel_command := Some wheel_cmd\<rparr>;
             s = (if show_turns display \<and> Some wheel_cmd \<noteq> previous_wheel s
                  then s\<lparr>previous_wheel := Some wheel_cmd,
                         instruction_markers := instruction_markers s @ [(pos_x s, pos_y s)]\<rparr>
                  else s)
         in Inr (s\<lparr>movement_index := movement_index s + 1\<rparr>)))
      else Inr s)"

subsection \<open>The kinematic integrator (lines 250 to 282)\<close>

definition straight_step :: "real \<Rightarrow> sim_state \<Rightarrow> sim_state" where
  "straight_step step s =
     (let dx = sin (heading s) * step * real_of_int (direction_sign s);
          dy = cos (heading s) * step * real_of_int (direction_sign s)
      in s\<lparr>axle_x := axle_x s + dx, axle_y := axle_y s + dy,
            pos_x := pos_x s + dx, pos_y := pos_y s + dy\<rparr>)"

definition pivot_step :: "RobotParameters \<Rightarrow> real \<Rightarrow> sim_state \<Rightarrow> py_error + sim_state" where
  "pivot_step params step s =
     and_then (truediv (real_of_int (direction_sign s) * step) (robot_width params)) (\<lambda>theta.
       (let pivot_x = axle_x s - half_robot_width params * cos (heading s);
            pivot_y = axle_y s + half_robot_width params * sin (heading s);
            dx_local = half_robot_width params * cos (heading s);
            dy_local = - half_robot_width params * sin (heading s);
            cos_theta = cos theta;
            sin_theta = sin theta;
            x_rel_pivot = dx_local * cos_theta - dy_local * sin_theta;
            y_rel_pivot = dx_local * sin_theta + dy_local * cos_theta;
            s = s\<lparr>axle_x := pivot_x + x_rel_pivot, axle_y := pivot_y + y_rel_pivot\<rparr>;
            s = s\<lparr>pos_x := axle_offset params * sin (heading s) + axle_x s,
                   pos_y := axle_offset params * cos (heading s) + axle_y s\<rparr>
        in Inr (if active_wheel_command s = Some ''left''
                then s\<lparr>heading := heading s + theta\<rparr>
                else s\<lparr>heading := heading s - theta\<rparr>)))"

definition integrate :: "RobotParameters \<Rightarrow> sim_state \<Rightarrow> py_error + sim_state" where
  "integrate params s =
     (if remaining_distance s > 0
      then (let step = min (step_size params) (remaining_distance s)
            in and_then
                 (if active_wheel_command s = Some ''both''
                  then Inr (straight_step step s) else pivot_step params step s)
                 (\<lambda>s. Inr (s\<lparr>remaining_distance := remaining_distance s - step,
                              path := path s @ [(pos_x s, pos_y s)]\<rparr>)))
      else Inr s)"

subsection \<open>One advancing iteration (lines 236 to 300)\<close>

definition check_finished :: "movement list \<Rightarrow> sim_state \<Rightarrow> sim_state" where
  "check_finished movements s =
     (if movement_index s \<ge> int (length movements) \<and> remaining_distance s \<le> 0
      then s\<lparr>simulation_finished := True\<rparr> else s)"

text \<open>The camera follows the robot when it nears the border of the window.\<close>

definition follow_x :: "real \<Rightarrow> sim_state \<Rightarrow> py_error + sim_state" where
  "follow_x screen_x s =
     (if screen_x > real_of_int (WIDTH - SCROLL_BUFFER)
      then and_then (truediv (screen_x - real_of_int (WIDTH - SCROLL_BUFFER)) (zoom s))
             (\<lambda>d. Inr (s\<lparr>scroll_x := scroll_x s + d\<rparr>))
      else if screen_x < real_of_int SCROLL_BUFFER
      then and_then (truediv (real_of_int SCROLL_BUFFER - screen_x) (zoom s))
             (\<lambda>d. Inr (s\<lparr>scroll_x := scroll_x s - d\<rparr>))
      else Inr s)"

definition follow_y :: "real \<Rightarrow> sim_state \<Rightarrow> py_error + sim_state" where
  "follow_y screen_y s =
     (if screen_y > real_of_int (HEIGHT - SCROLL_BUFFER)
      then and_then (truediv (screen_y - real_of_int (HEIGHT - SCROLL_BUFFER)) (zoom s))
             (\<lambda>d. Inr (s\<lparr>scroll_y := scroll_y s - d\<rparr>))
      else if screen_y < real_of_int SCROLL_BUFFER
      then and_then (truediv (real_of_int SCROLL_BUFFER - screen_y) (zoom s))
             (\<lambda>d. Inr (s\<lparr>scroll_y := scroll_y s + d\<rparr>))
      else Inr s)"

definition auto_scroll :: "key set \<Rightarrow> sim_state \<Rightarrow> py_error + sim_state" where
  "auto_scroll ks s =
     (if \<not> simulation_finished s \<and>
         \<not> (K_LEFT \<in> ks \<or> K_RIGHT \<in> ks \<or> K_UP \<in> ks \<or> K_DOWN \<in> ks)
      then
        (let screen_x = real_of_int (WIDTH div 2) + (pos_x s - scroll_x s) * zoom s;
             screen_y = real_of_int (HEIGHT div 2) - (pos_y s - scroll_y s) * zoom s
         in and_then (follow_x screen_x s) (follow_y screen_y))
      else Inr s)"

definition advance ::
  "RobotParameters \<Rightarrow> movement list \<Rightarrow> DisplayOptions \<Rightarrow> key set \<Rightarrow> sim_state
     \<Rightarrow> py_error + sim_state" where
  "advance params movements display ks s =
     and_then (activate params movements display s) (\<lambda>s.
     and_then (integrate params s) (\<lambda>s.
     and_then (auto_scroll ks (check_finished movements s)) (\<lambda>s.
       (let s = record_frame s;
            s = s\<lparr>sim_frame_index := int (length (frames s)) - 1\<rparr>
        in Inr (s\<lparr>frame_index := sim_frame_index s\<rparr>)))))"

subsection \<open>The frame that is drawn (lines 302 to 330)\<close>

text \<open>
  With recorded frames the drawing reads \<^verbatim>\<open>frames[frame_index]\<close>; without, the live
  variables.
\<close>

definition current_frame :: "sim_state \<Rightarrow> py_error + frame" where
  "current_frame s =
     (if frames s \<noteq> [] then getitem (frames s) (frame_index s) else Inr (snapshot s))"

text \<open>The wheel contact points, as the drawing code places them.\<close>

definition left_wheel :: "RobotParameters \<Rightarrow> real \<times> real \<Rightarrow> real \<Rightarrow> real \<times> real" where
  "left_wheel params axle h =
     (let half_width = robot_width params / 2
      in (fst axle - half_width * cos h, snd axle + half_width * sin h))"

definition right_wheel :: "RobotParameters \<Rightarrow> real \<times> real \<Rightarrow> real \<Rightarrow> real \<times> real" where
  "right_wheel params axle h =
     (let half_width = robot_width params / 2
      in (fst axle + half_width * cos h, snd axle - half_width * sin h))"

subsection \<open>The main loop (lines 156 to 361)\<close>

definition tick ::
  "RobotParameters \<Rightarrow> movement list \<Rightarrow> DisplayOptions \<Rightarrow> tick_input \<Rightarrow> sim_state
     \<Rightarrow> py_error + sim_state" where
  "tick params movements display inp s =
     and_then (pan_zoom (keys inp) (handle_events (events inp) s)) (\<lambda>s.
     and_then
       (let s = handle_scrubbing s
        in if \<not> paused s \<and> \<not> scrubbing s \<and> \<not> simulation_finished s
           then advance params movements display (keys inp) s else Inr s)
       (\<lambda>s. and_then (current_frame s) (\<lambda>f. Inr s)))"

text \<open>
  The loop runs one iteration per element of the input stream, for as long as \<open>running\<close>
  holds; an exception ends it.
\<close>

fun run_loop ::
  "RobotParameters \<Rightarrow> movement list \<Rightarrow> DisplayOptions \<Rightarrow> tick_input list \<Rightarrow> sim_state
     \<Rightarrow> py_error + sim_state" where
  "run_loop params movements display [] s = Inr s"
| "run_loop params movements display (inp # inps) s =
     (if running s
      then and_then (tick params movements display inp s)
             (run_loop params movements display inps)
      else Inr s)"

definition main ::
  "RobotParameters \<Rightarrow> InitialConditions \<Rightarrow> movement list \<Rightarrow> DisplayOptions
     \<Rightarrow> tick_input list \<Rightarrow> py_error + sim_state" where
  "main params init movements display inps =
     run_loop params movements display inps (initial_state params init)"

section \<open>Notions used in the statements\<close>

definition advancing :: "sim_state \<Rightarrow> bool" where
  "advancing s = (\<not> paused s \<and> \<not> scrubbing s \<and> \<not> simulation_finished s)"

definition before_advance :: "tick_input \<Rightarrow> sim_state \<Rightarrow> py_error + sim_state" where
  "before_advance inp s =
     and_then (pan_zoom (keys inp) (handle_events (events inp) s)) (\<lambda>s. Inr (handle_scrubbing s))"

definition erase_camera :: "sim_state \<Rightarrow> sim_state" where
  "erase_camera s = s\<lparr>scroll_x := 0, scroll_y := 0, zoom := 0\<rparr>"

definition camera_only :: "sim_state \<Rightarrow> sim_state \<Rightarrow> bool" where
  "camera_only s s' = (erase_camera s' = erase_camera s)"

definition sim_core where
  "sim_core (s :: sim_state) = (instruction_markers s, frames s, pos_x s, pos_y s, heading s, axle_x s, axle_y s,
     movement_index s, remaining_distance s, active_wheel_command s, direction_sign s,
     previous_wheel s, simulation_finished s, path s)"

definition sim_step ::
  "RobotParameters \<Rightarrow> movement list \<Rightarrow> DisplayOptions \<Rightarrow> sim_state \<Rightarrow> py_error + sim_state" where
  "sim_step params movements display s =
     and_then (activate params movements display s) (\<lambda>s.
     and_then (integrate params s) (\<lambda>s. Inr (check_finished movements s)))"

definition index_ok :: "sim_state \<Rightarrow> bool" where
  "index_ok s =
     (frames s \<noteq> [] \<and>
      0 \<le> frame_index s \<and> frame_index s < int (length (frames s)) \<and>
      0 \<le> sim_frame_index s \<and> sim_frame_index s < int (length (frames s)) \<and>
      0 \<le> sim_frame_index_before_scrub s \<and>
      sim_frame_index_before_scrub s < int (length (frames s)) \<and>
      0 \<le> movement_index s \<and>
      (scrubbing s \<longrightarrow> scrubbing_direction s = 1 \<or> scrubbing_direction s = - 1))"

definition pivot_theta :: "RobotParameters \<Rightarrow> sim_state \<Rightarrow> real" where
  "pivot_theta p s =
     real_of_int (direction_sign s) * min (step_size p) (remaining_distance s) / robot_width p"

definition control_part where
  "control_part (s :: sim_state) = (frames s, paused s, frame_index s, sim_frame_index s, scrubbing s,
     scrubbing_direction s, sim_frame_index_before_scrub s, running s,
     scroll_x s, scroll_y s, zoom s)"

definition demo_params :: RobotParameters where
  "demo_params = \<lparr>wheel_diameter = 1, robot_width = 2, scale = 5, step_size = 4, axle_offset = 1\<rparr>"

definition demo_init :: InitialConditions where
  "demo_init = \<lparr>init_x = 0, init_y = 0, init_heading = 0\<rparr>"

definition demo_display :: DisplayOptions where
  "demo_display = \<lparr>show_origin = True, show_initial_position = True, show_path = True,
     show_turns = True, show_heading = True, show_axle = True, show_grid = False\<rparr>"

definition idle :: tick_input where
  "idle = \<lparr>events = [], keys = {}\<rparr>"

definition press :: "key \<Rightarrow> tick_input" where
  "press k = \<lparr>events = [KEYDOWN k], keys = {}\<rparr>"

definition demo_moves :: "movement list" where
  "demo_moves = [(''forward'', ''both'', 1)]"

definition valid_commands :: "RobotParameters \<Rightarrow> movement list \<Rightarrow> bool" where
  "valid_commands p m = (0 < wheel_diameter p \<and> (\<forall>mv \<in> set m. 0 < snd (snd mv)))"

definition steps_left :: "RobotParameters \<Rightarrow> real \<Rightarrow> nat" where
  "steps_left p r = nat \<lceil>r / step_size p\<rceil>"

definition remaining_ok :: "sim_state \<Rightarrow> bool" where
  "remaining_ok s = (0 \<le> remaining_distance s \<and> (\<forall>f \<in> set (frames s). 0 \<le> f_remaining_distance f))"

definition within_command :: "int \<Rightarrow> string \<Rightarrow> real \<Rightarrow> sim_state \<Rightarrow> bool" where
  "within_command k w h s =
     ((movement_index s = k \<and> remaining_distance s \<le> 0 \<and> heading s = h) \<or>
      (movement_index s = k + 1 \<and> active_wheel_command s = Some w \<and> heading s = h) \<or>
      k + 2 \<le> movement_index s)"

definition selector :: "movement \<Rightarrow> string" where
  "selector mv = fst (snd mv)"

definition turn_moves :: "movement list" where
  "turn_moves = [(''forward'', ''left'', 1), (''forward'', ''right'', 1)]"

definition hidden_turns :: DisplayOptions where
  "hidden_turns = demo_display\<lparr>show_turns := False\<rparr>"

definition previous_ok :: "movement list \<Rightarrow> sim_state \<Rightarrow> bool" where
  "previous_ok m s =
     (if movement_index s = 0 then previous_wheel s = None
      else previous_wheel s = Some (selector (m ! nat (movement_index s - 1))))"

section \<open>Properties\<close>

lemma and_then_Inr [simp]: "and_then (Inr v) f = f v"
  by (simp add: and_then_def)

lemma and_then_Inl [simp]: "and_then (Inl e) f = Inl e"
  by (simp add: and_then_def)

lemma and_then_eq_Inr: "and_then r f = Inr y \<longleftrightarrow> (\<exists>v. r = Inr v \<and> f v = Inr y)"
  by (cases r) simp_all

lemma truediv_eq_Inr: "truediv a b = Inr d \<longleftrightarrow> b \<noteq> 0 \<and> d = a / b"
  by (auto simp: truediv_def)

lemma camera_only_refl [simp]: "camera_only s s"
  by (simp add: camera_only_def)

lemma camera_only_trans: "camera_only s t \<Longrightarrow> camera_only t u \<Longrightarrow> camera_only s u"
  by (simp add: camera_only_def)

lemma camera_only_upd [simp]:
  "camera_only s (s\<lparr>scroll_x := a\<rparr>)" "camera_only s (s\<lparr>scroll_y := b\<rparr>)"
  "camera_only s (s\<lparr>zoom := c\<rparr>)"
  "camera_only s (s\<lparr>zoom := c, scroll_x := a, scroll_y := b\<rparr>)"
  by (simp_all add: camera_only_def erase_camera_def)

lemma camera_only_iff:
  "camera_only s s' \<longleftrightarrow>
     sim_core s' = sim_core s \<and> paused s' = paused s \<and> frame_index s' = frame_index s \<and>
     sim_frame_index s' = sim_frame_index s \<and> scrubbing s' = scrubbing s \<and>
     scrubbing_direction s' = scrubbing_direction s \<and>
     sim_frame_index_before_scrub s' = sim_frame_index_before_scrub s \<and> running s' = running s"
  by (cases s, cases s') (auto simp: camera_only_def erase_camera_def sim_core_def)

lemma camera_only_Let: "(\<And>v. camera_only s (f v)) \<Longrightarrow> camera_only s (Let a f)"
  by simp

lemma reset_view_camera: "camera_only s (reset_view s)"
proof (cases "frames s")
  case Nil
  then show ?thesis by (simp add: reset_view_def)
next
  case (Cons f fs)
  show ?thesis
    unfolding reset_view_def Cons list.case
    by (intro camera_only_Let) (rule camera_only_upd)
qed

lemma zoom_keys_camera: "camera_only s (zoom_keys ks s)"
  by (simp add: zoom_keys_def camera_only_def erase_camera_def Let_def)

lemma truediv_upd_camera:
  assumes "and_then (truediv a b) (\<lambda>d. Inr (upd d)) = Inr s'" "\<And>d. camera_only s (upd d)"
  shows "camera_only s s'"
  using assms by (auto simp: and_then_eq_Inr)

lemma pan_step_camera:
  assumes "pan_step b upd s = Inr s'" "\<And>t d. camera_only t (upd t d)"
  shows "camera_only s s'"
  using assms by (auto simp: pan_step_def and_then_eq_Inr split: if_splits)

lemma pan_zoom_camera: "pan_zoom ks s = Inr s' \<Longrightarrow> camera_only s s'"
  unfolding pan_zoom_def and_then_eq_Inr
  apply clarify
  apply (drule pan_step_camera, simp)+
  apply (blast intro: camera_only_trans zoom_keys_camera)
  done

lemma follow_x_camera: "follow_x sx s = Inr s' \<Longrightarrow> camera_only s s'"
  unfolding follow_x_def
  by (auto split: if_splits elim!: truediv_upd_camera)

lemma follow_y_camera: "follow_y sy s = Inr s' \<Longrightarrow> camera_only s s'"
  unfolding follow_y_def
  by (auto split: if_splits elim!: truediv_upd_camera)

lemma auto_scroll_camera: "auto_scroll ks s = Inr s' \<Longrightarrow> camera_only s s'"
  unfolding auto_scroll_def
  by (auto simp: Let_def and_then_eq_Inr split: if_splits
      dest!: follow_x_camera follow_y_camera intro: camera_only_trans)

lemma handle_event_core [simp]: "sim_core (handle_event s e) = sim_core s"
proof (cases e)
  case (KEYDOWN k)
  have "sim_core (reset_view s) = sim_core s"
    using reset_view_camera [of s] by (simp add: camera_only_iff)
  then show ?thesis using KEYDOWN by (cases k) (simp_all add: sim_core_def)
qed (simp_all add: sim_core_def)

lemma handle_events_core [simp]: "sim_core (handle_events es s) = sim_core s"
  unfolding handle_events_def by (induction es arbitrary: s) simp_all

lemma handle_scrubbing_core [simp]: "sim_core (handle_scrubbing s) = sim_core s"
  by (simp add: handle_scrubbing_def sim_core_def Let_def)

lemma before_advance_core: "before_advance inp s = Inr s1 \<Longrightarrow> sim_core s1 = sim_core s"
  unfolding before_advance_def and_then_eq_Inr
  by (auto dest!: pan_zoom_camera simp: camera_only_iff)

lemma tick_eq_Inr:
  "tick params movements display inp s = Inr s' \<longleftrightarrow>
     (\<exists>s1. before_advance inp s = Inr s1 \<and>
        (if advancing s1 then advance params movements display (keys inp) s1 = Inr s'
         else s' = s1) \<and> (\<exists>f. current_frame s' = Inr f))"
  unfolding tick_def before_advance_def advancing_def and_then_eq_Inr Let_def
  by auto

lemma getitem_eq_Inr:
  "0 \<le> i \<Longrightarrow> getitem xs i = Inr v \<longleftrightarrow> i < int (length xs) \<and> v = xs ! nat i"
  by (auto simp: getitem_def Let_def)

lemma getitem_in_range: "0 \<le> i \<Longrightarrow> i < int (length xs) \<Longrightarrow> getitem xs i = Inr (xs ! nat i)"
  by (simp add: getitem_def Let_def)

lemma activate_idle:
  "\<not> (remaining_distance s \<le> 0 \<and> movement_index s < int (length m)) \<Longrightarrow> activate p m d s = Inr s"
  unfolding activate_def by (simp only: if_False)

lemma activate_next:
  assumes "0 \<le> movement_index s" "remaining_distance s \<le> 0"
    "movement_index s < int (length m)" "m ! nat (movement_index s) = (dir, w, r)"
  shows "activate p m d s = Inr (s\<lparr>direction_sign := (if dir = ''forward'' then 1 else - 1),
      remaining_distance := r * wheel_circumference p,
      active_wheel_command := Some w,
      previous_wheel := (if show_turns d \<and> Some w \<noteq> previous_wheel s then Some w else previous_wheel s),
      instruction_markers := (if show_turns d \<and> Some w \<noteq> previous_wheel s
         then instruction_markers s @ [(pos_x s, pos_y s)] else instruction_markers s),
      movement_index := movement_index s + 1\<rparr>)"
  using assms by (simp add: activate_def getitem_in_range Let_def)

lemma integrate_idle: "\<not> remaining_distance s > 0 \<Longrightarrow> integrate p s = Inr s"
  by (simp add: integrate_def)

lemma integrate_both:
  assumes "active_wheel_command s = Some ''both''" "remaining_distance s > 0"
  shows "integrate p s = Inr (s\<lparr>
      axle_x := axle_x s + sin (heading s) * min (step_size p) (remaining_distance s) * real_of_int (direction_sign s),
      axle_y := axle_y s + cos (heading s) * min (step_size p) (remaining_distance s) * real_of_int (direction_sign s),
      pos_x := pos_x s + sin (heading s) * min (step_size p) (remaining_distance s) * real_of_int (direction_sign s),
      pos_y := pos_y s + cos (heading s) * min (step_size p) (remaining_distance s) * real_of_int (direction_sign s),
      remaining_distance := remaining_distance s - min (step_size p) (remaining_distance s),
      path := path s @ [(pos_x s + sin (heading s) * min (step_size p) (remaining_distance s) * real_of_int (direction_sign s),
                        pos_y s + cos (heading s) * min (step_size p) (remaining_distance s) * real_of_int (direction_sign s))]\<rparr>)"
  using assms by (simp add: integrate_def Let_def straight_step_def)

lemma advance_eq_Inr:
  "advance p m d ks s = Inr s' \<longleftrightarrow>
     (\<exists>s2 s3. sim_step p m d s = Inr s2 \<and> auto_scroll ks s2 = Inr s3 \<and>
        s' = (record_frame s3)\<lparr>sim_frame_index := int (length (frames s3)),
                                 frame_index := int (length (frames s3))\<rparr>)"
  unfolding advance_def sim_step_def and_then_eq_Inr Let_def
  by (auto simp: record_frame_def)

lemma and_then_eq_Inl:
  "and_then r f = Inl e \<longleftrightarrow> r = Inl e \<or> (\<exists>v. r = Inr v \<and> f v = Inl e)"
  by (cases r) simp_all

lemma sim_core_fields:
  assumes "sim_core s' = sim_core s"
  shows "instruction_markers s' = instruction_markers s" "frames s' = frames s"
    "pos_x s' = pos_x s" "pos_y s' = pos_y s" "heading s' = heading s"
    "axle_x s' = axle_x s" "axle_y s' = axle_y s" "movement_index s' = movement_index s"
    "remaining_distance s' = remaining_distance s"
    "active_wheel_command s' = active_wheel_command s" "direction_sign s' = direction_sign s"
    "previous_wheel s' = previous_wheel s" "simulation_finished s' = simulation_finished s"
    "path s' = path s"
  using assms by (simp_all add: sim_core_def)

lemma index_ok_initial: "index_ok (initial_state p i)"
  by (simp add: index_ok_def initial_state_def record_frame_def)

lemma index_ok_camera: "camera_only s s' \<Longrightarrow> index_ok s \<Longrightarrow> index_ok s'"
  by (simp add: camera_only_iff index_ok_def sim_core_def)

lemma index_ok_handle_event: "index_ok s \<Longrightarrow> index_ok (handle_event s e)"
proof (cases e)
  case (KEYDOWN k)
  assume ok: "index_ok s"
  show ?thesis
  proof (cases k)
    case K_0
    with KEYDOWN ok show ?thesis by (simp add: index_ok_camera [OF reset_view_camera])
  qed (use KEYDOWN ok in \<open>simp_all add: index_ok_def\<close>)
qed (simp_all add: index_ok_def)

lemma index_ok_handle_events: "index_ok s \<Longrightarrow> index_ok (handle_events es s)"
  unfolding handle_events_def
  by (induction es arbitrary: s) (simp_all add: index_ok_handle_event)

lemma index_ok_handle_scrubbing: "index_ok s \<Longrightarrow> index_ok (handle_scrubbing s)"
  by (auto simp: index_ok_def handle_scrubbing_def Let_def)

lemma index_ok_before_advance: "before_advance inp s = Inr s1 \<Longrightarrow> index_ok s \<Longrightarrow> index_ok s1"
  unfolding before_advance_def and_then_eq_Inr
  by (auto dest!: pan_zoom_camera intro!: index_ok_handle_scrubbing
      intro: index_ok_camera index_ok_handle_events)

lemma activate_cases:
  assumes "activate p m d s = Inr s1"
  obtains (idle) "\<not> (remaining_distance s \<le> 0 \<and> movement_index s < int (length m))" "s1 = s"
  | (next_cmd) dir w r where "remaining_distance s \<le> 0" "movement_index s < int (length m)"
      "getitem m (movement_index s) = Inr (dir, w, r)"
      "s1 = s\<lparr>direction_sign := (if dir = ''forward'' then 1 else - 1),
          remaining_distance := r * wheel_circumference p,
          active_wheel_command := Some w,
          previous_wheel := (if show_turns d \<and> Some w \<noteq> previous_wheel s then Some w else previous_wheel s),
          instruction_markers := (if show_turns d \<and> Some w \<noteq> previous_wheel s
             then instruction_markers s @ [(pos_x s, pos_y s)] else instruction_markers s),
          movement_index := movement_index s + 1\<rparr>"
proof (cases "remaining_distance s \<le> 0 \<and> movement_index s < int (length m)")
  case False
  with assms have "s1 = s" by (simp only: activate_def if_False sum.inject)
  with False show ?thesis by (rule idle)
next
  case True
  show ?thesis
  proof (cases "getitem m (movement_index s)")
    case (Inl e)
    with True assms show ?thesis by (simp add: activate_def)
  next
    case (Inr x)
    obtain dir w r' where xe: "x = (dir, w, r')" by (cases x)
    from assms True Inr xe
    have "s1 = s\<lparr>direction_sign := (if dir = ''forward'' then 1 else - 1),
          remaining_distance := r' * wheel_circumference p,
          active_wheel_command := Some w,
          previous_wheel := (if show_turns d \<and> Some w \<noteq> previous_wheel s then Some w else previous_wheel s),
          instruction_markers := (if show_turns d \<and> Some w \<noteq> previous_wheel s
             then instruction_markers s @ [(pos_x s, pos_y s)] else instruction_markers s),
          movement_index := movement_index s + 1\<rparr>"
      by (auto simp: activate_def Let_def)
    with True Inr xe show ?thesis by (intro next_cmd [of dir w r']) simp_all
  qed
qed

lemma pivot_step_eq_Inr:
  "pivot_step p step s = Inr s' \<longleftrightarrow>
     robot_width p \<noteq> 0 \<and>
     s' = (let theta = real_of_int (direction_sign s) * step / robot_width p;
               hw = half_robot_width p; h = heading s;
               ax = axle_x s - hw * cos h + (hw * cos h * cos theta + hw * sin h * sin theta);
               ay = axle_y s + hw * sin h + (hw * cos h * sin theta - hw * sin h * cos theta)
           in s\<lparr>axle_x := ax, axle_y := ay,
                 pos_x := axle_offset p * sin h + ax, pos_y := axle_offset p * cos h + ay,
                 heading := (if active_wheel_command s = Some ''left'' then h + theta else h - theta)\<rparr>)"
  unfolding pivot_step_def and_then_eq_Inr truediv_eq_Inr
  by (auto simp: Let_def)

lemma integrate_cases:
  assumes "integrate p s = Inr s2"
  obtains (idle) "\<not> remaining_distance s > 0" "s2 = s"
  | (straight) "remaining_distance s > 0" "active_wheel_command s = Some ''both''"
      "s2 = (straight_step (min (step_size p) (remaining_distance s)) s)
         \<lparr>remaining_distance := remaining_distance s - min (step_size p) (remaining_distance s),
          path := path s @ [(pos_x (straight_step (min (step_size p) (remaining_distance s)) s),
                             pos_y (straight_step (min (step_size p) (remaining_distance s)) s))]\<rparr>"
  | (pivot) s1 where "remaining_distance s > 0" "active_wheel_command s \<noteq> Some ''both''"
      "pivot_step p (min (step_size p) (remaining_distance s)) s = Inr s1"
      "s2 = s1\<lparr>remaining_distance := remaining_distance s - min (step_size p) (remaining_distance s),
               path := path s @ [(pos_x s1, pos_y s1)]\<rparr>"
proof (cases "remaining_distance s > 0")
  case False
  with assms show ?thesis by (intro idle) (simp_all add: integrate_def)
next
  case pos: True
  show ?thesis
  proof (cases "active_wheel_command s = Some ''both''")
    case True
    with pos assms show ?thesis
      by (intro straight) (auto simp: integrate_def Let_def straight_step_def)
  next
    case False
    with pos assms obtain s1 where
      s1: "pivot_step p (min (step_size p) (remaining_distance s)) s = Inr s1"
      and s2: "s2 = s1\<lparr>remaining_distance := remaining_distance s1 - min (step_size p) (remaining_distance s),
               path := path s1 @ [(pos_x s1, pos_y s1)]\<rparr>"
      by (auto simp: integrate_def Let_def and_then_eq_Inr)
    from s1 have "remaining_distance s1 = remaining_distance s" "path s1 = path s"
      by (auto simp: pivot_step_eq_Inr Let_def)
    with s1 s2 pos False show ?thesis by (intro pivot [of s1]) simp_all
  qed
qed

lemma control_part_frames: "control_part s' = control_part s \<Longrightarrow> frames s' = frames s"
  by (simp add: control_part_def)

lemma activate_control:
  assumes "activate p m d s = Inr s1"
  shows "control_part s1 = control_part s" "movement_index s \<le> movement_index s1"
    "simulation_finished s1 = simulation_finished s"
  using assms by (cases rule: activate_cases; simp add: control_part_def)+

lemma integrate_control:
  assumes "integrate p s = Inr s2"
  shows "control_part s2 = control_part s" "movement_index s2 = movement_index s"
    "simulation_finished s2 = simulation_finished s"
  using assms
  by (cases rule: integrate_cases;
      auto simp: control_part_def straight_step_def pivot_step_eq_Inr Let_def)+

lemma check_finished_control:
  "control_part (check_finished m s) = control_part s"
  "movement_index (check_finished m s) = movement_index s"
  by (simp_all add: check_finished_def control_part_def)

lemma sim_step_control:
  assumes "sim_step p m d s = Inr s2"
  shows "control_part s2 = control_part s" "movement_index s \<le> movement_index s2"
proof -
  from assms obtain s1 s1' where a: "activate p m d s = Inr s1"
    and i: "integrate p s1 = Inr s1'" and c: "s2 = check_finished m s1'"
    unfolding sim_step_def and_then_eq_Inr by auto
  show "control_part s2 = control_part s"
    using activate_control(1) [OF a] integrate_control(1) [OF i] c
    by (simp add: check_finished_control)
  show "movement_index s \<le> movement_index s2"
    using activate_control(2) [OF a] integrate_control(2) [OF i] c
    by (simp add: check_finished_control)
qed

lemma index_ok_advance:
  assumes "advance p m d ks s = Inr s'" "index_ok s"
  shows "index_ok s'"
proof -
  from assms(1) obtain s2 s3 where s2: "sim_step p m d s = Inr s2"
    and s3: "auto_scroll ks s2 = Inr s3"
    and s': "s' = (record_frame s3)\<lparr>sim_frame_index := int (length (frames s3)),
                                 frame_index := int (length (frames s3))\<rparr>"
    by (auto simp: advance_eq_Inr)
  from s3 have c: "camera_only s2 s3" by (rule auto_scroll_camera)
  from sim_step_control [OF s2] c assms(2) have "index_ok s3"
    by (auto simp: index_ok_def control_part_def camera_only_iff sim_core_def)
  then show ?thesis unfolding s' by (auto simp: index_ok_def record_frame_def)
qed

lemma index_ok_tick:
  assumes "tick p m d inp s = Inr s'" "index_ok s"
  shows "index_ok s'"
  using assms unfolding tick_eq_Inr
  by (auto dest: index_ok_before_advance index_ok_advance split: if_splits)

lemma current_frame_ok: "index_ok s \<Longrightarrow> current_frame s = Inr (frames s ! nat (frame_index s))"
  by (simp add: index_ok_def current_frame_def getitem_in_range)

text \<open>Errors: which ones each part can raise.\<close>

lemma truediv_error: "truediv a b = Inl e \<Longrightarrow> e = ZeroDivisionError"
  by (simp add: truediv_def split: if_splits)

lemma pan_step_error: "pan_step b upd s = Inl e \<Longrightarrow> e = ZeroDivisionError"
  by (auto simp: pan_step_def and_then_eq_Inl split: if_splits dest: truediv_error)

lemma pan_zoom_error: "pan_zoom ks s = Inl e \<Longrightarrow> e = ZeroDivisionError"
  unfolding pan_zoom_def and_then_eq_Inl
  by (auto dest: pan_step_error)

lemma before_advance_error: "before_advance inp s = Inl e \<Longrightarrow> e = ZeroDivisionError"
  unfolding before_advance_def and_then_eq_Inl
  by (auto dest: pan_zoom_error)

lemma follow_error: "follow_x sx s = Inl e \<Longrightarrow> e = ZeroDivisionError"
  "follow_y sy s = Inl e \<Longrightarrow> e = ZeroDivisionError"
  by (auto simp: follow_x_def follow_y_def and_then_eq_Inl split: if_splits dest: truediv_error)

lemma auto_scroll_error: "auto_scroll ks s = Inl e \<Longrightarrow> e = ZeroDivisionError"
  unfolding auto_scroll_def Let_def
  by (auto simp: and_then_eq_Inl split: if_splits dest: follow_error)

lemma activate_error:
  "activate p m d s = Inl e \<Longrightarrow> 0 \<le> movement_index s \<Longrightarrow> False"
  by (auto simp: activate_def and_then_eq_Inl getitem_in_range Let_def split: if_splits prod.splits)

lemma integrate_error: "integrate p s = Inl e \<Longrightarrow> e = ZeroDivisionError"
  by (auto simp: integrate_def pivot_step_def Let_def and_then_eq_Inl
      split: if_splits dest: truediv_error)

lemma advance_error:
  assumes "advance p m d ks s = Inl e" "0 \<le> movement_index s"
  shows "e = ZeroDivisionError"
  using assms unfolding advance_def and_then_eq_Inl Let_def
  by (auto dest: activate_error integrate_error auto_scroll_error)

lemma tick_error:
  assumes "tick p m d inp s = Inl e" "index_ok s"
  shows "e = ZeroDivisionError"
proof -
  have unfold: "tick p m d inp s = and_then (before_advance inp s) (\<lambda>s.
     and_then (if advancing s then advance p m d (keys inp) s else Inr s)
       (\<lambda>s. and_then (current_frame s) (\<lambda>f. Inr s)))"
    unfolding tick_def before_advance_def advancing_def Let_def
    by (cases "pan_zoom (keys inp) (handle_events (events inp) s)") simp_all
  have "before_advance inp s = Inl e
      \<or> (\<exists>s1. before_advance inp s = Inr s1 \<and> advancing s1 \<and> advance p m d (keys inp) s1 = Inl e)
      \<or> (\<exists>s1 s2. before_advance inp s = Inr s1 \<and>
            (if advancing s1 then advance p m d (keys inp) s1 else Inr s1) = Inr s2 \<and>
            current_frame s2 = Inl e)"
    using assms(1) unfolding unfold and_then_eq_Inl by (auto split: if_splits)
  then consider "before_advance inp s = Inl e"
    | s1 where "before_advance inp s = Inr s1" "advancing s1" "advance p m d (keys inp) s1 = Inl e"
    | s1 s2 where "before_advance inp s = Inr s1"
        "(if advancing s1 then advance p m d (keys inp) s1 else Inr s1) = Inr s2"
        "current_frame s2 = Inl e"
    by blast
  then show ?thesis
  proof cases
    case 1
    then show ?thesis by (rule before_advance_error)
  next
    case 2
    with assms(2) show ?thesis
      by (auto dest!: index_ok_before_advance advance_error simp: index_ok_def)
  next
    case 3
    with assms(2) have "index_ok s2"
      by (auto dest: index_ok_before_advance index_ok_advance split: if_splits)
    with 3 show ?thesis by (simp add: current_frame_ok)
  qed
qed

lemma run_loop_invariant:
  assumes "run_loop p m d inps s = Inr s'" "P s"
    and "\<And>s inp s'. P s \<Longrightarrow> tick p m d inp s = Inr s' \<Longrightarrow> P s'"
  shows "P s'"
  using assms(1,2)
proof (induction inps arbitrary: s)
  case Nil
  then show ?case by simp
next
  case (Cons inp inps)
  show ?case
  proof (cases "running s")
    case True
    with Cons.prems obtain s1 where t: "tick p m d inp s = Inr s1"
      and r: "run_loop p m d inps s1 = Inr s'"
      by (auto simp: and_then_eq_Inr)
    from assms(3) [OF Cons.prems(2) t] have "P s1" .
    with r show ?thesis by (rule Cons.IH)
  next
    case False
    with Cons.prems show ?thesis by simp
  qed
qed

lemma main_invariant:
  assumes "main p i m d inps = Inr s" "P (initial_state p i)"
    and "\<And>s inp s'. P s \<Longrightarrow> tick p m d inp s = Inr s' \<Longrightarrow> P s'"
  shows "P s"
  using assms unfolding main_def by (rule run_loop_invariant)

lemma index_ok_main: "main p i m d inps = Inr s \<Longrightarrow> index_ok s"
  by (erule main_invariant [where P = index_ok]) (auto intro: index_ok_initial index_ok_tick)

lemma run_loop_error:
  "run_loop p m d inps s = Inl e \<Longrightarrow> index_ok s \<Longrightarrow> e = ZeroDivisionError"
proof (induction inps arbitrary: s)
  case Nil
  then show ?case by simp
next
  case (Cons inp inps)
  then show ?case
    by (auto simp: and_then_eq_Inl split: if_splits dest: tick_error index_ok_tick)
qed

lemma main_error: "main p i m d inps = Inl e \<Longrightarrow> e = ZeroDivisionError"
  unfolding main_def by (erule run_loop_error) (rule index_ok_initial)

lemma tick_scrub:
  assumes t: "tick p m d inp s = Inr s'" and ok: "index_ok s"
    and sc: "scrubbing (handle_events (events inp) s)"
    and pf: "paused (handle_events (events inp) s) \<or> simulation_finished (handle_events (events inp) s)"
  shows "(scrubbing_direction (handle_events (events inp) s) = 1 \<or>
          scrubbing_direction (handle_events (events inp) s) = - 1) \<and>
         frame_index s' = max 0 (min (int (length (frames s)) - 1)
           (frame_index (handle_events (events inp) s) +
            scrubbing_direction (handle_events (events inp) s))) \<and>
         frames s' = frames s"
proof -
  let ?s0 = "handle_events (events inp) s"
  from t obtain s1 where b: "before_advance inp s = Inr s1"
    and a: "if advancing s1 then advance p m d (keys inp) s1 = Inr s' else s' = s1"
    unfolding tick_eq_Inr by blast
  from b obtain sp where pz: "pan_zoom (keys inp) ?s0 = Inr sp" and s1: "s1 = handle_scrubbing sp"
    unfolding before_advance_def and_then_eq_Inr by auto
  from pz have c: "camera_only ?s0 sp" by (rule pan_zoom_camera)
  have fr: "frames ?s0 = frames s"
    using handle_events_core [of "events inp" s] by (simp add: sim_core_def)
  from c sc pf have scp: "scrubbing sp" "paused sp \<or> simulation_finished sp"
    by (auto simp: camera_only_iff sim_core_def)
  then have "\<not> advancing s1" unfolding s1 by (auto simp: advancing_def handle_scrubbing_def Let_def)
  with a have s': "s' = handle_scrubbing sp" using s1 by simp
  from ok have "index_ok ?s0" by (rule index_ok_handle_events)
  with sc have dir: "scrubbing_direction ?s0 = 1 \<or> scrubbing_direction ?s0 = - 1"
    by (simp add: index_ok_def)
  from c fr scp show ?thesis unfolding s' using dir
    by (simp add: handle_scrubbing_def Let_def camera_only_iff sim_core_def)
qed

text \<open>Evaluating the model on concrete input.\<close>

lemmas sim_eval =
  main_def initial_state_def record_frame_def snapshot_def tick_def
  handle_events_def pan_zoom_def pan_step_def zoom_keys_def handle_scrubbing_def advance_def
  activate_def getitem_def integrate_def straight_step_def pivot_step_def truediv_def
  check_finished_def auto_scroll_def follow_x_def follow_y_def current_frame_def
  wheel_circumference_def half_robot_width_def Let_def
  WIDTH_def HEIGHT_def SCROLL_BUFFER_def PAN_SPEED_def ZOOM_STEP_def ZOOM_MIN_def ZOOM_MAX_def

lemmas demo_defs = demo_params_def demo_init_def demo_display_def demo_moves_def idle_def press_def

lemma pi_le_4: "pi \<le> 4"
  using pi_less_4 by simp

lemma demo_run_both:
  "main demo_params demo_init demo_moves demo_display [idle] = Inr
     \<lparr>scroll_x = 0, scroll_y = 0, zoom = 5, instruction_markers = [(0, 0)],
      frames =
        [\<lparr>f_x = 0, f_y = 0, f_heading = 0, f_axle_x = 0, f_axle_y = - 1,
          f_movement_index = 0, f_remaining_distance = 0,
          f_active_wheel_command = None, f_direction_sign = 1,
          f_instruction_markers = []\<rparr>,
         \<lparr>f_x = 0, f_y = pi, f_heading = 0, f_axle_x = 0, f_axle_y = pi - 1,
          f_movement_index = 1, f_remaining_distance = 0,
          f_active_wheel_command = Some ''both'', f_direction_sign = 1,
          f_instruction_markers = [(0, 0)]\<rparr>],
      pos_x = 0, pos_y = pi, heading = 0, axle_x = 0, axle_y = pi - 1,
      movement_index = 1, remaining_distance = 0,
      active_wheel_command = Some ''both'', direction_sign = 1,
      previous_wheel = Some ''both'', paused = False, frame_index = 1,
      sim_frame_index = 1, simulation_finished = True, scrubbing = False,
      scrubbing_direction = 0, sim_frame_index_before_scrub = 0,
      path = [(0, 0), (0, pi)], running = True\<rparr>"
  by (simp add: sim_eval demo_defs pi_le_4)

section \<open>C8: scrubbing clamps the display index\<close>

text \<open>
  Claim C8. While scrubbing, each tick moves the display index by exactly one step in the
  scrub direction and clamps it to the range from 0 to length - 1 of the frame sequence, so
  the frame lookup by display index is always in range and never errors, for every sequence
  of inputs. Here: no run of the main loop ends in \<open>IndexError\<close>; in every state the loop
  reaches, the display index is within the recorded frames and the lookup returns that
  frame; and an iteration that scrubs (the scrub flag holds after its events, while paused
  or finished) has direction 1 or -1, moves the index by the direction, clamped, and
  records nothing.
\<close>

theorem scrub_index_clamped:
  "main p i m d inps \<noteq> Inl IndexError \<and>
   (\<forall>s. main p i m d inps = Inr s \<longrightarrow>
      0 \<le> frame_index s \<and> frame_index s < int (length (frames s)) \<and>
      current_frame s = Inr (frames s ! nat (frame_index s)) \<and>
      (\<forall>inp s'. tick p m d inp s = Inr s' \<longrightarrow>
         (let s0 = handle_events (events inp) s in
          scrubbing s0 \<and> (paused s0 \<or> simulation_finished s0) \<longrightarrow>
            (scrubbing_direction s0 = 1 \<or> scrubbing_direction s0 = - 1) \<and>
            frame_index s' = max 0 (min (int (length (frames s)) - 1)
                                      (frame_index s0 + scrubbing_direction s0)) \<and>
            frames s' = frames s)))"
proof (intro conjI allI impI)
  show "main p i m d inps \<noteq> Inl IndexError"
    using main_error [of p i m d inps IndexError] by auto
next
  fix s assume "main p i m d inps = Inr s"
  then have ok: "index_ok s" by (rule index_ok_main)
  then show "0 \<le> frame_index s" "frame_index s < int (length (frames s))"
    by (simp_all add: index_ok_def)
  from ok show "current_frame s = Inr (frames s ! nat (frame_index s))"
    by (rule current_frame_ok)
  fix inp s' assume "tick p m d inp s = Inr s'"
  from tick_scrub [OF this ok]
  show "let s0 = handle_events (events inp) s in
          scrubbing s0 \<and> (paused s0 \<or> simulation_finished s0) \<longrightarrow>
            (scrubbing_direction s0 = 1 \<or> scrubbing_direction s0 = - 1) \<and>
            frame_index s' = max 0 (min (int (length (frames s)) - 1)
                                      (frame_index s0 + scrubbing_direction s0)) \<and>
            frames s' = frames s"
    unfolding Let_def by blast
qed

theorem scrub_index_clamped_witness:
  "main demo_params demo_init demo_moves demo_display [idle] \<noteq> Inl IndexError \<and>
   (\<exists>s s'. main demo_params demo_init demo_moves demo_display [idle] = Inr s \<and>
      tick demo_params demo_moves demo_display (press K_LEFTBRACKET) s = Inr s' \<and>
      scrubbing (handle_events (events (press K_LEFTBRACKET)) s) \<and>
      simulation_finished (handle_events (events (press K_LEFTBRACKET)) s) \<and>
      frame_index s = 1 \<and> length (frames s) = 2 \<and>
      current_frame s = Inr (frames s ! 1) \<and>
      frame_index s' = 0 \<and> frames s' = frames s)"
proof -
  obtain s where run: "main demo_params demo_init demo_moves demo_display [idle] = Inr s"
    and s: "frame_index s = 1" "length (frames s) = 2" "simulation_finished s" "zoom s = 5"
      "\<not> scrubbing s"
    using demo_run_both by simp
  let ?s0 = "handle_events (events (press K_LEFTBRACKET)) s"
  have s0: "scrubbing ?s0" "simulation_finished ?s0" "frame_index ?s0 = 1"
    "scrubbing_direction ?s0 = - 1"
    using s by (simp_all add: handle_events_def press_def)
  have "\<exists>s'. tick demo_params demo_moves demo_display (press K_LEFTBRACKET) s = Inr s'"
    using s by (simp add: sim_eval press_def)
  then obtain s' where t: "tick demo_params demo_moves demo_display (press K_LEFTBRACKET) s = Inr s'" ..
  note inst = scrub_index_clamped [of demo_params demo_init demo_moves demo_display "[idle]"]
  from inst have "main demo_params demo_init demo_moves demo_display [idle] \<noteq> Inl IndexError"
    by blast
  moreover from inst run have "current_frame s = Inr (frames s ! nat (frame_index s))"
    by blast
  moreover from inst run t s0 have "frame_index s' = max 0 (min (int (length (frames s)) - 1)
      (frame_index ?s0 + scrubbing_direction ?s0)) \<and> frames s' = frames s"
    unfolding Let_def by blast
  ultimately show ?thesis using run t s s0 by (intro conjI exI [of _ s] exI [of _ s']) simp_all
qed

section \<open>C7: nothing is recorded outside the advancing state\<close>

lemma handle_scrubbing_flags [simp]:
  "paused (handle_scrubbing s) = paused s" "scrubbing (handle_scrubbing s) = scrubbing s"
  "simulation_finished (handle_scrubbing s) = simulation_finished s"
  by (simp_all add: handle_scrubbing_def Let_def)

lemma before_advance_flags:
  assumes "before_advance inp s = Inr s1"
  shows "paused s1 = paused (handle_events (events inp) s)"
    "scrubbing s1 = scrubbing (handle_events (events inp) s)"
    "simulation_finished s1 = simulation_finished (handle_events (events inp) s)"
  using assms unfolding before_advance_def and_then_eq_Inr
  by (auto dest!: pan_zoom_camera simp: camera_only_iff sim_core_def)

lemma handle_event_paused:
  "KEYDOWN K_SPACE \<noteq> e \<Longrightarrow> paused (handle_event s e) = paused s"
proof (cases e)
  case (KEYDOWN k)
  assume "KEYDOWN K_SPACE \<noteq> e"
  with KEYDOWN show ?thesis
    using reset_view_camera [of s] by (cases k) (simp_all add: camera_only_iff)
qed simp_all

lemma handle_events_paused:
  "KEYDOWN K_SPACE \<notin> set es \<Longrightarrow> paused (handle_events es s) = paused s"
  unfolding handle_events_def
  by (induction es arbitrary: s) (simp_all add: handle_event_paused)

lemma handle_events_finished [simp]:
  "simulation_finished (handle_events es s) = simulation_finished s"
  using handle_events_core [of es s] by (simp add: sim_core_def)

lemma tick_not_advancing:
  assumes t: "tick p m d inp s = Inr s'"
    and f: "paused (handle_events (events inp) s) \<or> scrubbing (handle_events (events inp) s)
      \<or> simulation_finished (handle_events (events inp) s)"
  shows "sim_core s' = sim_core s"
proof -
  from t obtain s1 where b: "before_advance inp s = Inr s1"
    and a: "if advancing s1 then advance p m d (keys inp) s1 = Inr s' else s' = s1"
    unfolding tick_eq_Inr by blast
  from f before_advance_flags [OF b] have "\<not> advancing s1" by (simp add: advancing_def)
  with a have "s' = s1" by simp
  with before_advance_core [OF b] show ?thesis by simp
qed

text \<open>
  Claim C7. In every state other than Advancing, that is, whenever the controller is paused,
  scrubbing or finished, no frame is appended and the integrator is not invoked: the length
  of the frame sequence and every recorded frame are unchanged by ticks in those states.
  The state of the controller in an iteration is the one its events leave; then the
  iteration leaves the recorded frames and every simulation variable (pose, axle, command
  state, markers, path) as they were. A finished simulation stays frozen whatever the
  input, and a paused one for every input that does not toggle the pause.
\<close>

theorem frozen_unless_advancing:
  assumes "tick p m d inp s = Inr s'"
  shows "(paused (handle_events (events inp) s) \<or> scrubbing (handle_events (events inp) s)
           \<or> simulation_finished (handle_events (events inp) s)
          \<longrightarrow> frames s' = frames s \<and> sim_core s' = sim_core s) \<and>
         (simulation_finished s \<longrightarrow> frames s' = frames s \<and> sim_core s' = sim_core s) \<and>
         (paused s \<and> KEYDOWN K_SPACE \<notin> set (events inp)
          \<longrightarrow> frames s' = frames s \<and> sim_core s' = sim_core s)"
proof -
  have core: "sim_core s' = sim_core s \<Longrightarrow> frames s' = frames s \<and> sim_core s' = sim_core s"
    by (simp add: sim_core_def)
  show ?thesis
  proof (intro conjI impI)
    assume "paused (handle_events (events inp) s) \<or> scrubbing (handle_events (events inp) s)
           \<or> simulation_finished (handle_events (events inp) s)"
    from tick_not_advancing [OF assms this] core
    show "frames s' = frames s" "sim_core s' = sim_core s" by simp_all
  next
    assume "simulation_finished s"
    then have "simulation_finished (handle_events (events inp) s)" by simp
    then have "sim_core s' = sim_core s" using tick_not_advancing [OF assms] by blast
    with core show "frames s' = frames s" "sim_core s' = sim_core s" by simp_all
  next
    assume "paused s \<and> KEYDOWN K_SPACE \<notin> set (events inp)"
    then have "paused (handle_events (events inp) s)" by (simp add: handle_events_paused)
    then have "sim_core s' = sim_core s" using tick_not_advancing [OF assms] by blast
    with core show "frames s' = frames s" "sim_core s' = sim_core s" by simp_all
  qed
qed

theorem frozen_unless_advancing_witness:
  "\<exists>s s'. main demo_params demo_init demo_moves demo_display [press K_SPACE] = Inr s \<and>
     tick demo_params demo_moves demo_display idle s = Inr s' \<and>
     paused s \<and> KEYDOWN K_SPACE \<notin> set (events idle) \<and> paused (handle_events (events idle) s) \<and>
     \<not> simulation_finished s \<and> length (frames s) = 1 \<and>
     frames s' = frames s \<and> sim_core s' = sim_core s"
proof -
  have "\<exists>s. main demo_params demo_init demo_moves demo_display [press K_SPACE] = Inr s \<and>
      paused s \<and> \<not> simulation_finished s \<and> length (frames s) = 1 \<and> zoom s = 5 \<and>
      frame_index s = 0"
    by (simp add: sim_eval demo_defs)
  then obtain s where run: "main demo_params demo_init demo_moves demo_display [press K_SPACE] = Inr s"
    and s: "paused s" "\<not> simulation_finished s" "length (frames s) = 1" "zoom s = 5"
      "frame_index s = 0"
    by blast
  have "\<exists>s'. tick demo_params demo_moves demo_display idle s = Inr s'"
    using s by (simp add: tick_def idle_def handle_events_def pan_zoom_def pan_step_def
        zoom_keys_def handle_scrubbing_def current_frame_def getitem_def Let_def)
  then obtain s' where t: "tick demo_params demo_moves demo_display idle s = Inr s'" ..
  have ev: "KEYDOWN K_SPACE \<notin> set (events idle)" "paused (handle_events (events idle) s)"
    using s by (simp_all add: idle_def handle_events_def)
  from frozen_unless_advancing [OF t] s ev
  have "frames s' = frames s \<and> sim_core s' = sim_core s" by blast
  with run t s ev show ?thesis by blast
qed

section \<open>Invariants of the simulation variables\<close>

lemma advance_core:
  assumes "advance p m d ks s = Inr s'"
  obtains s2 where "sim_step p m d s = Inr s2" "sim_core s' = sim_core (record_frame s2)"
proof -
  from assms obtain s2 s3 where s2: "sim_step p m d s = Inr s2"
    and s3: "auto_scroll ks s2 = Inr s3"
    and s': "s' = (record_frame s3)\<lparr>sim_frame_index := int (length (frames s3)),
                                 frame_index := int (length (frames s3))\<rparr>"
    by (auto simp: advance_eq_Inr)
  from auto_scroll_camera [OF s3] have "sim_core s3 = sim_core s2"
    by (simp add: camera_only_iff)
  then have "sim_core s' = sim_core (record_frame s2)"
    unfolding s' by (simp add: sim_core_def record_frame_def snapshot_def)
  with s2 show ?thesis by (rule that)
qed

lemma run_loop_core_invariant:
  assumes run: "run_loop p m d inps s = Inr s'" and ok: "index_ok s" and P: "P s"
    and core: "\<And>s s'. sim_core s' = sim_core s \<Longrightarrow> index_ok s' \<Longrightarrow> P s \<Longrightarrow> P s'"
    and step: "\<And>s s2. P s \<Longrightarrow> index_ok s \<Longrightarrow> \<not> simulation_finished s \<Longrightarrow>
        sim_step p m d s = Inr s2 \<Longrightarrow> P (record_frame s2)"
  shows "P s'"
proof -
  have "P s' \<and> index_ok s'"
  proof (rule run_loop_invariant [OF run, where P = "\<lambda>s. P s \<and> index_ok s"])
    show "P s \<and> index_ok s" using P ok by simp
  next
    fix s inp s' assume a: "P s \<and> index_ok s" and t: "tick p m d inp s = Inr s'"
    from t a have ok': "index_ok s'" by (auto intro: index_ok_tick)
    from t obtain s1 where b: "before_advance inp s = Inr s1"
      and adv: "if advancing s1 then advance p m d (keys inp) s1 = Inr s' else s' = s1"
      unfolding tick_eq_Inr by blast
    from a b have ok1: "index_ok s1" by (auto intro: index_ok_before_advance)
    from core [OF before_advance_core [OF b] ok1] a have P1: "P s1" by simp
    show "P s' \<and> index_ok s'"
    proof (cases "advancing s1")
      case False
      with adv P1 ok' show ?thesis by simp
    next
      case True
      with adv have "advance p m d (keys inp) s1 = Inr s'" by simp
      then obtain s2 where s2: "sim_step p m d s1 = Inr s2"
        and c: "sim_core s' = sim_core (record_frame s2)"
        by (rule advance_core)
      from True have "\<not> simulation_finished s1" by (simp add: advancing_def)
      from step [OF P1 ok1 this s2] have "P (record_frame s2)" .
      from core [OF c ok' this] ok' show ?thesis by simp
    qed
  qed
  then show ?thesis ..
qed

lemma main_core_invariant:
  assumes "main p i m d inps = Inr s" and "P (initial_state p i)"
    and "\<And>s s'. sim_core s' = sim_core s \<Longrightarrow> index_ok s' \<Longrightarrow> P s \<Longrightarrow> P s'"
    and "\<And>s s2. P s \<Longrightarrow> index_ok s \<Longrightarrow> \<not> simulation_finished s \<Longrightarrow>
        sim_step p m d s = Inr s2 \<Longrightarrow> P (record_frame s2)"
  shows "P s"
  using assms(1) unfolding main_def
  by (rule run_loop_core_invariant [OF _ index_ok_initial]) (use assms(2-) in auto)

lemma sim_step_cases:
  assumes "sim_step p m d s = Inr s2"
  obtains s1 s1' where "activate p m d s = Inr s1" "integrate p s1 = Inr s1'"
    "s2 = check_finished m s1'"
  using assms unfolding sim_step_def and_then_eq_Inr by auto

section \<open>C6: a step never overshoots the command\<close>

lemma integrate_remaining:
  assumes "integrate p s = Inr s2" "remaining_distance s > 0"
  shows "remaining_distance s2 = remaining_distance s - min (step_size p) (remaining_distance s)"
  using assms
  by (cases rule: integrate_cases) (auto simp: straight_step_def Let_def pivot_step_eq_Inr)

lemma steps_left_step:
  fixes r :: real
  assumes "0 < r" "0 < step_size p"
  shows "steps_left p (r - min (step_size p) r) + 1 = steps_left p r"
proof (cases "r \<le> step_size p")
  case True
  with assms have "0 < r / step_size p" "r / step_size p \<le> 1" by simp_all
  then have "\<lceil>r / step_size p\<rceil> = 1" by linarith
  with True show ?thesis by (simp add: steps_left_def)
next
  case False
  then have lt: "step_size p < r" by simp
  with assms have "1 < r / step_size p" by simp
  then have big: "1 < \<lceil>r / step_size p\<rceil>" by linarith
  have "(r - step_size p) / step_size p = r / step_size p - 1"
    using assms by (simp add: field_simps)
  then have "\<lceil>(r - step_size p) / step_size p\<rceil> = \<lceil>r / step_size p\<rceil> - 1" by simp
  then have "steps_left p (r - min (step_size p) r) = nat (\<lceil>r / step_size p\<rceil> - 1)"
    using lt by (simp add: steps_left_def)
  also have "\<dots> + 1 = nat \<lceil>r / step_size p\<rceil>" using big by linarith
  finally show ?thesis by (simp add: steps_left_def)
qed

lemma valid_commands_target:
  assumes "valid_commands p m" "0 \<le> k" "k < int (length m)" "getitem m k = Inr (dir, w, r)"
  shows "0 < r * wheel_circumference p"
proof -
  from assms(2-4) have "(dir, w, r) = m ! nat k" by (simp add: getitem_eq_Inr)
  with assms(2,3) have "(dir, w, r) \<in> set m" by simp
  with assms(1) have "0 < r" "0 < wheel_diameter p" by (auto simp: valid_commands_def)
  then show ?thesis by (simp add: wheel_circumference_def)
qed

lemma remaining_ok_main:
  assumes "valid_commands p m" "main p i m d inps = Inr t"
  shows "remaining_ok t"
proof (rule main_core_invariant [OF assms(2), where P = remaining_ok])
  show "remaining_ok (initial_state p i)"
    by (simp add: remaining_ok_def initial_state_def record_frame_def snapshot_def)
next
  fix s s' assume "sim_core s' = sim_core s" "remaining_ok s"
  then show "remaining_ok s'" by (simp add: remaining_ok_def sim_core_def)
next
  fix s s2
  assume P: "remaining_ok s" and ok: "index_ok s" and st: "sim_step p m d s = Inr s2"
  from st obtain s1 s1' where a: "activate p m d s = Inr s1" and i: "integrate p s1 = Inr s1'"
    and c: "s2 = check_finished m s1'"
    by (rule sim_step_cases)
  from ok have k: "0 \<le> movement_index s" by (simp add: index_ok_def)
  from a have r1: "0 \<le> remaining_distance s1" and f1: "frames s1 = frames s"
    using P k valid_commands_target [OF assms(1)]
    by (cases rule: activate_cases; auto simp: remaining_ok_def intro: less_imp_le)+
  have "0 \<le> remaining_distance s1'"
  proof (cases "remaining_distance s1 > 0")
    case True
    from integrate_remaining [OF i True] True show ?thesis by simp
  next
    case False
    with i r1 show ?thesis by (simp add: integrate_idle)
  qed
  moreover from f1 have "frames s1' = frames s"
    using control_part_frames [OF integrate_control(1) [OF i]] by simp
  ultimately show "remaining_ok (record_frame s2)"
    using P c by (simp add: remaining_ok_def record_frame_def snapshot_def check_finished_def)
qed

text \<open>
  Claim C6. For every command, every integrator step consumes step = min(stepSize,
  remainingDistance) and decreases the remaining distance by exactly step, so the remaining
  distance is never negative and reaches exactly zero on the final (possibly partial) step
  of the command. The remaining distance after a step is zero exactly when the step was
  the final one (the remaining distance was at most the step size); with a positive step
  size each step brings that final step one step closer. With positive wheel diameter and
  rotation counts the remaining distance is non-negative in every state the loop reaches
  and in every recorded frame.
\<close>

theorem step_never_overshoots:
  "(remaining_distance s > 0 \<and> integrate p s = Inr s2 \<longrightarrow>
      remaining_distance s2 = remaining_distance s - min (step_size p) (remaining_distance s) \<and>
      0 \<le> remaining_distance s2 \<and>
      (remaining_distance s2 = 0 \<longleftrightarrow> remaining_distance s \<le> step_size p) \<and>
      (0 < step_size p \<longrightarrow>
         steps_left p (remaining_distance s2) + 1 = steps_left p (remaining_distance s))) \<and>
   (valid_commands p m \<and> main p i m d inps = Inr t \<longrightarrow>
      0 \<le> remaining_distance t \<and> (\<forall>f \<in> set (frames t). 0 \<le> f_remaining_distance f))"
proof (intro conjI impI)
  assume a: "remaining_distance s > 0 \<and> integrate p s = Inr s2"
  then have eq: "remaining_distance s2 =
      remaining_distance s - min (step_size p) (remaining_distance s)"
    by (simp add: integrate_remaining)
  then show "remaining_distance s2 =
      remaining_distance s - min (step_size p) (remaining_distance s)" .
  from eq a show "0 \<le> remaining_distance s2" by simp
  from eq a show "remaining_distance s2 = 0 \<longleftrightarrow> remaining_distance s \<le> step_size p"
    by (auto simp: min_def split: if_splits)
  assume "0 < step_size p"
  with a show "steps_left p (remaining_distance s2) + 1 = steps_left p (remaining_distance s)"
    unfolding eq by (intro steps_left_step) simp_all
next
  assume "valid_commands p m \<and> main p i m d inps = Inr t"
  then have "remaining_ok t" by (auto intro: remaining_ok_main)
  then show "0 \<le> remaining_distance t" "\<forall>f \<in> set (frames t). 0 \<le> f_remaining_distance f"
    by (simp_all add: remaining_ok_def)
qed

theorem step_never_overshoots_witness:
  "\<exists>s s2 t. activate demo_params demo_moves demo_display (initial_state demo_params demo_init) = Inr s \<and>
     remaining_distance s = pi \<and> remaining_distance s > 0 \<and> integrate demo_params s = Inr s2 \<and>
     remaining_distance s \<le> step_size demo_params \<and> remaining_distance s2 = 0 \<and>
     0 < step_size demo_params \<and> steps_left demo_params (remaining_distance s) = 1 \<and>
     valid_commands demo_params demo_moves \<and>
     main demo_params demo_init demo_moves demo_display [idle] = Inr t \<and>
     0 \<le> remaining_distance t \<and> length (frames t) = 2"
proof -
  have "\<exists>s. activate demo_params demo_moves demo_display (initial_state demo_params demo_init) = Inr s \<and>
      remaining_distance s = pi \<and> active_wheel_command s = Some ''both''"
    by (simp add: sim_eval demo_defs)
  then obtain s where
    a: "activate demo_params demo_moves demo_display (initial_state demo_params demo_init) = Inr s"
    and s: "remaining_distance s = pi" "active_wheel_command s = Some ''both''"
    by blast
  from s have pos: "remaining_distance s > 0" by simp
  have "\<exists>s2. integrate demo_params s = Inr s2"
    using s by (simp add: integrate_def Let_def)
  then obtain s2 where i: "integrate demo_params s = Inr s2" ..
  have le: "remaining_distance s \<le> step_size demo_params" "0 < step_size demo_params"
    using s pi_le_4 by (simp_all add: demo_params_def)
  have v: "valid_commands demo_params demo_moves"
    by (simp add: valid_commands_def demo_defs)
  obtain t where run: "main demo_params demo_init demo_moves demo_display [idle] = Inr t"
    and t: "length (frames t) = 2"
    using demo_run_both by simp
  note inst = step_never_overshoots [of s demo_params s2 demo_moves demo_init demo_display "[idle]" t]
  from inst pos i le have z: "remaining_distance s2 = 0"
    and st: "steps_left demo_params (remaining_distance s2) + 1 =
      steps_left demo_params (remaining_distance s)"
    by blast+
  from st z have "steps_left demo_params (remaining_distance s) = 1"
    by (simp add: steps_left_def)
  moreover from inst v run have "0 \<le> remaining_distance t" by blast
  ultimately show ?thesis using a s pos i le z v run t by blast
qed

section \<open>C5: both wheels driven\<close>

lemma integrate_keeps_command:
  assumes "integrate p s = Inr s2"
  shows "active_wheel_command s2 = active_wheel_command s"
  using assms
  by (cases rule: integrate_cases) (auto simp: straight_step_def Let_def pivot_step_eq_Inr)

lemma integrate_both_heading:
  assumes "integrate p s = Inr s2" "active_wheel_command s = Some ''both''"
  shows "heading s2 = heading s"
  using assms
  by (cases rule: integrate_cases) (auto simp: straight_step_def Let_def)

lemma within_command_both_step:
  assumes J: "within_command k ''both'' h s" and ok: "index_ok s"
    and cmd: "getitem m k = Inr (dir, ''both'', r)"
    and st: "sim_step p m d s = Inr s2"
  shows "within_command k ''both'' h (record_frame s2)"
proof -
  from st obtain s1 s1' where a: "activate p m d s = Inr s1" and i: "integrate p s1 = Inr s1'"
    and c: "s2 = check_finished m s1'"
    by (rule sim_step_cases)
  have fin: "movement_index (record_frame s2) = movement_index s1"
    "active_wheel_command (record_frame s2) = active_wheel_command s1"
    using integrate_control(2) [OF i] integrate_keeps_command [OF i] c
    by (simp_all add: record_frame_def check_finished_def)
  have hd: "active_wheel_command s1 = Some ''both'' \<Longrightarrow> heading (record_frame s2) = heading s1"
    using integrate_both_heading [OF i] c by (simp add: record_frame_def check_finished_def)
  from ok have k0: "0 \<le> movement_index s" by (simp add: index_ok_def)
  from J consider
      (before) "movement_index s = k" "remaining_distance s \<le> 0" "heading s = h"
    | (during) "movement_index s = k + 1" "active_wheel_command s = Some ''both''" "heading s = h"
    | (after) "k + 2 \<le> movement_index s"
    unfolding within_command_def by blast
  then show ?thesis
  proof cases
    case before
    with k0 cmd have lt: "movement_index s < int (length m)" by (simp add: getitem_eq_Inr)
    from a before lt cmd have "movement_index s1 = k + 1 \<and>
        active_wheel_command s1 = Some ''both'' \<and> heading s1 = h"
      by (cases rule: activate_cases) auto
    with fin hd show ?thesis by (simp add: within_command_def)
  next
    case during
    from a during have "(movement_index s1 = k + 1 \<and>
        active_wheel_command s1 = Some ''both'' \<and> heading s1 = h) \<or> movement_index s1 = k + 2"
      by (cases rule: activate_cases) auto
    with fin hd show ?thesis by (auto simp: within_command_def)
  next
    case after
    with activate_control(2) [OF a] fin show ?thesis by (simp add: within_command_def)
  qed
qed

lemma within_command_both_run:
  assumes "run_loop p m d inps s = Inr s'" "index_ok s"
    and "movement_index s = k" "remaining_distance s \<le> 0"
    and cmd: "getitem m k = Inr (dir, ''both'', r)"
  shows "within_command k ''both'' (heading s) s'"
proof (rule run_loop_core_invariant [OF assms(1,2), where P = "within_command k ''both'' (heading s)"])
  show "within_command k ''both'' (heading s) s"
    using assms(3,4) by (simp add: within_command_def)
next
  fix t t' :: sim_state assume "sim_core t' = sim_core t" "within_command k ''both'' (heading s) t"
  then show "within_command k ''both'' (heading s) t'"
    by (simp add: within_command_def sim_core_def)
next
  fix t t2 assume "within_command k ''both'' (heading s) t" "index_ok t"
    "sim_step p m d t = Inr t2"
  then show "within_command k ''both'' (heading s) (record_frame t2)"
    using cmd by (blast intro: within_command_both_step)
qed

text \<open>
  Claim C5. For every integrator step with selector both, the reference point and the axle
  position both translate by (sin h, cos h) times step times sign, for the current heading
  h, and the heading after the step (and hence after the whole command) equals the heading
  before it. The whole command: from a state of a run in which command \<open>k\<close>, with selector
  both, is the next to be activated, every later state in which \<open>k\<close> is still the last
  activated command has the heading of that state, whatever the input in between.
\<close>

theorem both_wheels_straight:
  "(active_wheel_command s = Some ''both'' \<and> remaining_distance s > 0 \<longrightarrow>
     (\<exists>s2. integrate p s = Inr s2 \<and>
        pos_x s2 = pos_x s + sin (heading s) * min (step_size p) (remaining_distance s)
                              * real_of_int (direction_sign s) \<and>
        pos_y s2 = pos_y s + cos (heading s) * min (step_size p) (remaining_distance s)
                              * real_of_int (direction_sign s) \<and>
        axle_x s2 = axle_x s + sin (heading s) * min (step_size p) (remaining_distance s)
                                * real_of_int (direction_sign s) \<and>
        axle_y s2 = axle_y s + cos (heading s) * min (step_size p) (remaining_distance s)
                                * real_of_int (direction_sign s) \<and>
        heading s2 = heading s)) \<and>
   (main p i m d inps = Inr s0 \<and> movement_index s0 = k \<and> remaining_distance s0 \<le> 0 \<and>
    getitem m k = Inr (dir, ''both'', r) \<and>
    run_loop p m d inps' s0 = Inr s1 \<and> movement_index s1 = k + 1
    \<longrightarrow> heading s1 = heading s0)"
proof (intro conjI impI)
  assume "active_wheel_command s = Some ''both'' \<and> remaining_distance s > 0"
  then show "\<exists>s2. integrate p s = Inr s2 \<and>
        pos_x s2 = pos_x s + sin (heading s) * min (step_size p) (remaining_distance s)
                              * real_of_int (direction_sign s) \<and>
        pos_y s2 = pos_y s + cos (heading s) * min (step_size p) (remaining_distance s)
                              * real_of_int (direction_sign s) \<and>
        axle_x s2 = axle_x s + sin (heading s) * min (step_size p) (remaining_distance s)
                                * real_of_int (direction_sign s) \<and>
        axle_y s2 = axle_y s + cos (heading s) * min (step_size p) (remaining_distance s)
                                * real_of_int (direction_sign s) \<and>
        heading s2 = heading s"
    by (simp add: integrate_both)
next
  assume a: "main p i m d inps = Inr s0 \<and> movement_index s0 = k \<and> remaining_distance s0 \<le> 0 \<and>
    getitem m k = Inr (dir, ''both'', r) \<and>
    run_loop p m d inps' s0 = Inr s1 \<and> movement_index s1 = k + 1"
  then have "index_ok s0" by (auto intro: index_ok_main)
  with a have "within_command k ''both'' (heading s0) s1"
    by (auto intro: within_command_both_run)
  with a show "heading s1 = heading s0" by (simp add: within_command_def)
qed

theorem both_wheels_straight_witness:
  "\<exists>s s2 s0 s1.
     activate demo_params demo_moves demo_display (initial_state demo_params demo_init) = Inr s \<and>
     active_wheel_command s = Some ''both'' \<and> remaining_distance s > 0 \<and>
     integrate demo_params s = Inr s2 \<and>
     pos_x s2 = pos_x s \<and> pos_y s2 = pos_y s + pi \<and> heading s2 = heading s \<and>
     main demo_params demo_init demo_moves demo_display [] = Inr s0 \<and>
     movement_index s0 = 0 \<and> remaining_distance s0 \<le> 0 \<and>
     getitem demo_moves 0 = Inr (''forward'', ''both'', 1) \<and>
     run_loop demo_params demo_moves demo_display [idle] s0 = Inr s1 \<and>
     movement_index s1 = 0 + 1 \<and> heading s1 = heading s0"
proof -
  have "\<exists>s. activate demo_params demo_moves demo_display (initial_state demo_params demo_init) = Inr s \<and>
      remaining_distance s = pi \<and> active_wheel_command s = Some ''both'' \<and> heading s = 0 \<and>
      direction_sign s = 1"
    by (simp add: sim_eval demo_defs)
  then obtain s where
    a: "activate demo_params demo_moves demo_display (initial_state demo_params demo_init) = Inr s"
    and s: "remaining_distance s = pi" "active_wheel_command s = Some ''both''" "heading s = 0"
      "direction_sign s = 1"
    by blast
  from s have pos: "remaining_distance s > 0" by simp
  define s0 where "s0 = initial_state demo_params demo_init"
  have m0: "main demo_params demo_init demo_moves demo_display [] = Inr s0"
    by (simp add: main_def s0_def)
  have s0: "movement_index s0 = 0" "remaining_distance s0 \<le> 0" "heading s0 = 0"
    by (simp_all add: s0_def initial_state_def record_frame_def demo_defs)
  have g: "getitem demo_moves 0 = Inr (''forward'', ''both'', 1)"
    by (simp add: getitem_def demo_defs)
  obtain s1 where run: "run_loop demo_params demo_moves demo_display [idle] s0 = Inr s1"
    and s1: "movement_index s1 = 0 + 1"
    using demo_run_both unfolding main_def s0_def by simp
  note inst = both_wheels_straight [of s demo_params demo_init demo_moves demo_display "[]" s0 0
      "''forward''" 1 "[idle]" s1]
  from inst s pos obtain s2 where i: "integrate demo_params s = Inr s2"
    and mv: "pos_x s2 = pos_x s + sin (heading s) *
        min (step_size demo_params) (remaining_distance s) * real_of_int (direction_sign s)"
      "pos_y s2 = pos_y s + cos (heading s) *
        min (step_size demo_params) (remaining_distance s) * real_of_int (direction_sign s)"
      "heading s2 = heading s"
    by blast
  from mv s have "pos_x s2 = pos_x s" "pos_y s2 = pos_y s + pi"
    using pi_le_4 by (simp_all add: demo_params_def)
  moreover from inst m0 s0 g run s1 have "heading s1 = heading s0" by blast
  ultimately show ?thesis using a s pos i mv(3) m0 s0 g run s1 by blast
qed

section \<open>C3: turn markers\<close>

lemma integrate_markers:
  assumes "integrate p s = Inr s2"
  shows "instruction_markers s2 = instruction_markers s" "previous_wheel s2 = previous_wheel s"
  using assms
  by (cases rule: integrate_cases; auto simp: straight_step_def Let_def pivot_step_eq_Inr)+

lemma sim_step_markers:
  assumes st: "sim_step p m d s = Inr s2" and k: "0 \<le> movement_index s"
  shows "(movement_index s2 = movement_index s \<and>
            instruction_markers s2 = instruction_markers s \<and>
            previous_wheel s2 = previous_wheel s) \<or>
         (movement_index s2 = movement_index s + 1 \<and>
            movement_index s < int (length m) \<and> remaining_distance s \<le> 0 \<and>
            instruction_markers s2 =
              (if show_turns d \<and> Some (selector (m ! nat (movement_index s))) \<noteq> previous_wheel s
               then instruction_markers s @ [(pos_x s, pos_y s)] else instruction_markers s) \<and>
            previous_wheel s2 =
              (if show_turns d then Some (selector (m ! nat (movement_index s)))
               else previous_wheel s))"
proof -
  from st obtain s1 s1' where a: "activate p m d s = Inr s1" and i: "integrate p s1 = Inr s1'"
    and c: "s2 = check_finished m s1'"
    by (rule sim_step_cases)
  have fin: "movement_index s2 = movement_index s1"
    "instruction_markers s2 = instruction_markers s1" "previous_wheel s2 = previous_wheel s1"
    using integrate_control(2) [OF i] integrate_markers [OF i] c
    by (simp_all add: check_finished_def)
  from a show ?thesis
  proof (cases rule: activate_cases)
    case idle
    with fin show ?thesis by simp
  next
    case (next_cmd dir w r)
    from next_cmd(3) k have "m ! nat (movement_index s) = (dir, w, r)"
      by (simp add: getitem_eq_Inr)
    then have w: "selector (m ! nat (movement_index s)) = w" by (simp add: selector_def)
    from next_cmd fin show ?thesis unfolding w by auto
  qed
qed

lemma previous_ok_main:
  assumes "show_turns d" "main p i m d inps = Inr s"
  shows "previous_ok m s"
proof (rule main_core_invariant [OF assms(2), where P = "previous_ok m"])
  show "previous_ok m (initial_state p i)"
    by (simp add: previous_ok_def initial_state_def record_frame_def)
next
  fix s s' :: sim_state assume "sim_core s' = sim_core s" "previous_ok m s"
  then show "previous_ok m s'" by (simp add: previous_ok_def sim_core_def)
next
  fix s s2 assume P: "previous_ok m s" and ok: "index_ok s" and st: "sim_step p m d s = Inr s2"
  from ok have k: "0 \<le> movement_index s" by (simp add: index_ok_def)
  from sim_step_markers [OF st k] P assms(1) k
  show "previous_ok m (record_frame s2)"
    by (auto simp: previous_ok_def record_frame_def)
qed

lemma tick_core_cases:
  assumes "tick p m d inp s = Inr s'"
  obtains (still) "sim_core s' = sim_core s"
  | (advanced) s1 s2 where "sim_core s1 = sim_core s" "before_advance inp s = Inr s1"
      "advancing s1" "sim_step p m d s1 = Inr s2" "sim_core s' = sim_core (record_frame s2)"
proof -
  from assms obtain s1 where b: "before_advance inp s = Inr s1"
    and adv: "if advancing s1 then advance p m d (keys inp) s1 = Inr s' else s' = s1"
    unfolding tick_eq_Inr by blast
  note c = before_advance_core [OF b]
  show ?thesis
  proof (cases "advancing s1")
    case False
    with adv c show ?thesis by (intro still) simp
  next
    case True
    with adv have "advance p m d (keys inp) s1 = Inr s'" by simp
    then obtain s2 where "sim_step p m d s1 = Inr s2" "sim_core s' = sim_core (record_frame s2)"
      by (rule advance_core)
    with c b True show ?thesis by (intro advanced)
  qed
qed

lemma and_then_Inr_right [simp]: "and_then r Inr = r"
  by (cases r) simp_all

lemma run_loop_append:
  "run_loop p m d (xs @ ys) s = and_then (run_loop p m d xs s) (run_loop p m d ys)"
proof (induction xs arbitrary: s)
  case Nil
  then show ?case by simp
next
  case (Cons x xs)
  show ?case
  proof (cases "running s")
    case True
    then show ?thesis
      by (cases "tick p m d x s") (simp_all add: Cons.IH)
  next
    case False
    then show ?thesis by (cases ys) simp_all
  qed
qed

lemma main_snoc:
  assumes "main p i m d inps = Inr s" "running s"
  shows "main p i m d (inps @ [inp]) = tick p m d inp s"
proof -
  have "run_loop p m d [inp] s = tick p m d inp s"
    using assms(2) by (cases "tick p m d inp s") simp_all
  with assms(1) show ?thesis by (simp add: main_def run_loop_append)
qed

lemma demo_run_turns:
  "main demo_params demo_init turn_moves demo_display [idle] = Inr
     \<lparr>scroll_x = 0, scroll_y = 0, zoom = 5, instruction_markers = [(0, 0)],
      frames =
        [\<lparr>f_x = 0, f_y = 0, f_heading = 0, f_axle_x = 0, f_axle_y = - 1,
          f_movement_index = 0, f_remaining_distance = 0,
          f_active_wheel_command = None, f_direction_sign = 1,
          f_instruction_markers = []\<rparr>,
         \<lparr>f_x = - 1, f_y = 1, f_heading = pi / 2, f_axle_x = - 1, f_axle_y = 0,
          f_movement_index = 1, f_remaining_distance = 0,
          f_active_wheel_command = Some ''left'', f_direction_sign = 1,
          f_instruction_markers = [(0, 0)]\<rparr>],
      pos_x = - 1, pos_y = 1, heading = pi / 2, axle_x = - 1, axle_y = 0,
      movement_index = 1, remaining_distance = 0,
      active_wheel_command = Some ''left'', direction_sign = 1,
      previous_wheel = Some ''left'', paused = False, frame_index = 1,
      sim_frame_index = 1, simulation_finished = False, scrubbing = False,
      scrubbing_direction = 0, sim_frame_index_before_scrub = 0,
      path = [(0, 0), (- 1, 1)], running = True\<rparr>"
  by (simp add: sim_eval demo_defs turn_moves_def pi_le_4)

text \<open>
  Claim C3, as stated: for every run and every command activation a turn marker is
  appended if and only if the selector of the newly activated command differs from that of
  the command before it. With the display flag \<^verbatim>\<open>show_turns\<close> off the code appends no
  marker: in the run below the second command (right) is activated in the second iteration
  after a command with another selector (left), and the markers stay as they were.
\<close>

theorem turn_marker_counterexample:
  "map_sum id movement_index
     (main demo_params demo_init turn_moves hidden_turns [idle]) = Inr 1 \<and>
   map_sum id movement_index
     (main demo_params demo_init turn_moves hidden_turns [idle, idle]) = Inr 2 \<and>
   selector (turn_moves ! 1) \<noteq> selector (turn_moves ! 0) \<and>
   map_sum id instruction_markers
     (main demo_params demo_init turn_moves hidden_turns [idle, idle]) =
   map_sum id instruction_markers
     (main demo_params demo_init turn_moves hidden_turns [idle])"
  by (simp add: sim_eval demo_defs turn_moves_def hidden_turns_def selector_def pi_le_4)

text \<open>
  Claim C3, amended. In every iteration of a run the command index stays or grows by one
  (one command is activated). Without an activation the markers are unchanged. With an
  activation and \<^verbatim>\<open>show_turns\<close> on, a marker at the reference point of that moment is
  appended if and only if the command is the first one or its selector differs from the
  selector of the command before it; with \<^verbatim>\<open>show_turns\<close> off no marker is appended.
\<close>

theorem turn_marker_when_shown:
  "main p i m d inps = Inr s \<and> tick p m d inp s = Inr s' \<longrightarrow>
     (movement_index s' = movement_index s \<or> movement_index s' = movement_index s + 1) \<and>
     (movement_index s' = movement_index s \<longrightarrow> instruction_markers s' = instruction_markers s) \<and>
     (movement_index s' = movement_index s + 1 \<longrightarrow>
        instruction_markers s' =
          (if show_turns d \<and> (movement_index s = 0 \<or>
                selector (m ! nat (movement_index s)) \<noteq> selector (m ! nat (movement_index s - 1)))
           then instruction_markers s @ [(pos_x s, pos_y s)] else instruction_markers s))"
proof
  assume a: "main p i m d inps = Inr s \<and> tick p m d inp s = Inr s'"
  then have run: "main p i m d inps = Inr s" and t: "tick p m d inp s = Inr s'" by simp_all
  from run have ok: "index_ok s" by (rule index_ok_main)
  let ?concl = "(movement_index s' = movement_index s \<or> movement_index s' = movement_index s + 1) \<and>
     (movement_index s' = movement_index s \<longrightarrow> instruction_markers s' = instruction_markers s) \<and>
     (movement_index s' = movement_index s + 1 \<longrightarrow>
        instruction_markers s' =
          (if show_turns d \<and> (movement_index s = 0 \<or>
                selector (m ! nat (movement_index s)) \<noteq> selector (m ! nat (movement_index s - 1)))
           then instruction_markers s @ [(pos_x s, pos_y s)] else instruction_markers s))"
  from t show ?concl
  proof (cases rule: tick_core_cases)
    case still
    then show ?thesis by (simp add: sim_core_def)
  next
    case (advanced s1 s2)
    from ok advanced(2) have "index_ok s1" by (auto intro: index_ok_before_advance)
    then have k: "0 \<le> movement_index s1" by (simp add: index_ok_def)
    have eq: "movement_index s1 = movement_index s" "instruction_markers s1 = instruction_markers s"
      "previous_wheel s1 = previous_wheel s" "pos_x s1 = pos_x s" "pos_y s1 = pos_y s"
      using advanced(1) by (simp_all add: sim_core_def)
    have eq': "movement_index s' = movement_index s2" "instruction_markers s' = instruction_markers s2"
      using advanced(5) by (simp_all add: sim_core_def record_frame_def)
    note step = sim_step_markers [OF advanced(4) k, unfolded eq, folded eq']
    show ?thesis
    proof (cases "show_turns d")
      case False
      with step show ?thesis by auto
    next
      case True
      from previous_ok_main [OF True run]
      have "Some (selector (m ! nat (movement_index s))) \<noteq> previous_wheel s \<longleftrightarrow>
          movement_index s = 0 \<or>
          selector (m ! nat (movement_index s)) \<noteq> selector (m ! nat (movement_index s - 1))"
        by (auto simp: previous_ok_def split: if_splits)
      with step True show ?thesis by auto
    qed
  qed
qed

theorem turn_marker_when_shown_witness:
  "\<exists>s s'. main demo_params demo_init turn_moves demo_display [idle] = Inr s \<and>
     tick demo_params turn_moves demo_display idle s = Inr s' \<and>
     movement_index s = 1 \<and> movement_index s' = movement_index s + 1 \<and> show_turns demo_display \<and>
     selector (turn_moves ! nat (movement_index s)) \<noteq> selector (turn_moves ! nat (movement_index s - 1)) \<and>
     instruction_markers s = [(0, 0)] \<and> instruction_markers s' = [(0, 0), (- 1, 1)]"
proof -
  obtain s where run: "main demo_params demo_init turn_moves demo_display [idle] = Inr s"
    and s: "movement_index s = 1" "instruction_markers s = [(0, 0)]" "pos_x s = - 1" "pos_y s = 1"
      "running s"
    using demo_run_turns by simp
  have "\<exists>s'. main demo_params demo_init turn_moves demo_display ([idle] @ [idle]) = Inr s' \<and>
      movement_index s' = 2"
    by (simp add: sim_eval demo_defs turn_moves_def pi_le_4)
  then obtain s' where m2: "main demo_params demo_init turn_moves demo_display ([idle] @ [idle]) = Inr s'"
    and s': "movement_index s' = 2"
    by blast
  from m2 have t: "tick demo_params turn_moves demo_display idle s = Inr s'"
    unfolding main_snoc [OF run s(5)] .
  have sel: "selector (turn_moves ! nat (movement_index s)) \<noteq>
      selector (turn_moves ! nat (movement_index s - 1))"
    using s by (simp add: turn_moves_def selector_def)
  have d: "show_turns demo_display" by (simp add: demo_display_def)
  from turn_marker_when_shown [of demo_params demo_init turn_moves demo_display "[idle]" s idle s']
    run t s s' sel d
  have "instruction_markers s' = [(0, 0), (- 1, 1)]" by simp
  with run t s s' sel d show ?thesis by (intro exI [of _ s] exI [of _ s']) simp
qed

end
